theory Spec2Isabelle
  imports Main "HOL-Library.Sublist"
begin

section \<open>Values, exceptions and library calls\<close>

text \<open>
  The program (\<^verbatim>\<open>main.py\<close>) receives JSON messages over a websocket, fetches the
  metadata each one points to, fetches the image the metadata points to, and hands the
  image to a GUI thread through a bounded queue.

  A value produced by \<^verbatim>\<open>json.loads\<close> or \<^verbatim>\<open>response.json()\<close>: a Python
  \<^verbatim>\<open>dict\<close> is an association list read with \<^const>\<open>map_of\<close>.
\<close>

datatype json =
    JNull
  | JBool bool
  | JNum int
  | JStr string
  | JArr "json list"
  | JObj "(string \<times> json) list"

text \<open>The exception classes the code can meet; every one derives from \<^verbatim>\<open>Exception\<close>.\<close>

datatype exn =
    RequestException
  | ConnectionClosed
  | JSONDecodeError
  | TypeError
  | KeyError
  | AttributeError
  | UnidentifiedImageError
  | UnicodeEncodeError
  | OSError

subsection \<open>Python operators on JSON values\<close>

text \<open>
  \<^verbatim>\<open>k in v\<close>: key membership on a dict, element equality on a list, substring on a
  string, \<^verbatim>\<open>TypeError\<close> on a number, a boolean and \<^verbatim>\<open>None\<close>.
\<close>

fun py_in :: "string \<Rightarrow> json \<Rightarrow> exn + bool" where
  "py_in k (JObj kvs) = Inr (k \<in> set (map fst kvs))"
| "py_in k (JArr xs) = Inr (JStr k \<in> set xs)"
| "py_in k (JStr s) = Inr (sublist k s)"
| "py_in k (JNum n) = Inl TypeError"
| "py_in k (JBool b) = Inl TypeError"
| "py_in k JNull = Inl TypeError"

text \<open>\<^verbatim>\<open>v[k]\<close> with a string key: defined on a dict only.\<close>

fun py_getitem :: "json \<Rightarrow> string \<Rightarrow> exn + json" where
  "py_getitem (JObj kvs) k = (case map_of kvs k of None \<Rightarrow> Inl KeyError | Some v \<Rightarrow> Inr v)"
| "py_getitem (JArr xs) k = Inl TypeError"
| "py_getitem (JStr s) k = Inl TypeError"
| "py_getitem (JNum n) k = Inl TypeError"
| "py_getitem (JBool b) k = Inl TypeError"
| "py_getitem JNull k = Inl TypeError"

text \<open>\<^verbatim>\<open>v.startswith(p)\<close>: only a string has the method.\<close>

fun py_startswith :: "json \<Rightarrow> string \<Rightarrow> exn + bool" where
  "py_startswith (JStr s) p = Inr (prefix p s)"
| "py_startswith (JObj kvs) p = Inl AttributeError"
| "py_startswith (JArr xs) p = Inl AttributeError"
| "py_startswith (JNum n) p = Inl AttributeError"
| "py_startswith (JBool b) p = Inl AttributeError"
| "py_startswith JNull p = Inl AttributeError"

text \<open>
  \<^verbatim>\<open>s.replace(old, new)\<close>: every non-overlapping occurrence of \<^verbatim>\<open>old\<close>,
  scanning from the left, is replaced. With an empty \<^verbatim>\<open>old\<close> Python puts
  \<^verbatim>\<open>new\<close> before every character and at the end.
\<close>

function py_replace :: "string \<Rightarrow> string \<Rightarrow> string \<Rightarrow> string" where
  "py_replace s old new =
     (if old = [] then new @ concat (map (\<lambda>c. c # new) s)
      else if s = [] then []
      else if prefix old s then new @ py_replace (drop (length old) s) old new
      else hd s # py_replace (tl s) old new)"
  by pat_completeness auto
termination
  by (relation "measure (\<lambda>(s, old, new). length s)") auto

declare py_replace.simps [simp del]

text \<open>Lines 34-35: the rewrite of the image URI.\<close>

definition rewrite_image_uri :: "string \<Rightarrow> string" where
  "rewrite_image_uri image_uri =
     (if prefix ''ipfs://'' image_uri
      then py_replace image_uri ''ipfs://'' ''https://ipfs.io/ipfs/''
      else image_uri)"

section \<open>The bounded queue\<close>

text \<open>
  \<^verbatim>\<open>image_queue = queue.Queue(maxsize=5)\<close> (line 15). The operations are those of
  Python's \<^verbatim>\<open>queue.Queue\<close>: \<^verbatim>\<open>full()\<close> is \<^verbatim>\<open>0 < maxsize <= qsize()\<close>,
  \<^verbatim>\<open>put\<close> appends at the back and \<^verbatim>\<open>get\<close> takes from the front. The program
  calls \<^verbatim>\<open>put\<close> only after \<^verbatim>\<open>full()\<close> returned false and \<^verbatim>\<open>get\<close> only
  after \<^verbatim>\<open>empty()\<close> returned false, and the other thread can only have made room
  (or added an item) in between, so neither call ever blocks.
\<close>

datatype image = Image (width: nat) (height: nat) (pixels: string)

record queue =
  maxsize :: nat
  items :: "image list"

definition full :: "queue \<Rightarrow> bool" where
  "full q = (0 < maxsize q \<and> maxsize q \<le> length (items q))"

definition empty :: "queue \<Rightarrow> bool" where
  "empty q = (items q = [])"

definition put :: "image \<Rightarrow> queue \<Rightarrow> queue" where
  "put x q = q\<lparr>items := items q @ [x]\<rparr>"

definition get :: "queue \<Rightarrow> queue" where
  "get q = q\<lparr>items := tl (items q)\<rparr>"

section \<open>The state of the process and what it prints\<close>

text \<open>One constructor for each \<^verbatim>\<open>print\<close> of the ingestion code.\<close>

datatype printed =
    Metadata json
  | FetchingImageFrom string
  | FailedToFetchMetadata exn
  | ErrorProcessingMetadataOrImage exn
  | FailedToFetchImage exn
  | ErrorLoadingImage exn
  | SubscribedToNewTokenEvents
  | MetadataUriFound json
  | QueueFullDroppingOldestImage
  | ConnectionClosedReconnecting
  | WebSocketError exn
  | ReconnectingIn int

text \<open>
  Where \<^verbatim>\<open>subscribe\<close> is waiting: in \<^verbatim>\<open>websockets.connect\<close> and the
  \<^verbatim>\<open>send\<close> of the subscription (lines 75-78), in \<^verbatim>\<open>websocket.recv()\<close> with the
  connection open (line 82), in \<^verbatim>\<open>asyncio.sleep\<close> with no connection (line 107),
  or nowhere because it has returned.
\<close>

datatype pc = AtConnect | AtRecv | AtSleep | Returned

record state =
  pc :: pc
  retry_delay :: int
  shutdown_requested :: bool
  image_queue :: queue
  stdout :: "printed list"
  requests :: "json list"
  sleeps :: "int list"
  connects :: nat

text \<open>
  What the libraries answer. \<^verbatim>\<open>json.loads\<close> raises \<^verbatim>\<open>JSONDecodeError\<close> on
  \<^const>\<open>None\<close>. \<^verbatim>\<open>requests.get\<close> is asked with the number of requests made so
  far and its argument, and raises a \<^verbatim>\<open>RequestException\<close> (a timeout, a refused
  connection, an invalid URL) on \<^const>\<open>None\<close>. A response has its status code, what
  \<^verbatim>\<open>json()\<close> gives, and its bytes. \<^verbatim>\<open>Image.open\<close> raises
  \<^verbatim>\<open>UnidentifiedImageError\<close> on \<^const>\<open>None\<close>. The standard output says which
  texts it cannot encode.
\<close>

record response =
  status_code :: int
  json_body :: "exn + json"
  content :: string

record env =
  json_loads :: "string \<Rightarrow> json option"
  http_get :: "nat \<Rightarrow> json \<Rightarrow> response option"
  image_open :: "string \<Rightarrow> image option"
  stdout_refuses :: "string \<Rightarrow> bool"

text \<open>
  \<^verbatim>\<open>print\<close>. The standard output is taken to be open and UTF-8, Python's default,
  so a line is refused, with \<^verbatim>\<open>UnicodeEncodeError\<close> and nothing written, only for a
  text printed as it is that holds a character UTF-8 cannot encode: a lone surrogate,
  which \<^verbatim>\<open>json\<close> produces from an escape. The lines 27, 37 and 88 format a value
  received from outside: a string is printed as it is, a mapping or a list through
  \<^verbatim>\<open>repr\<close>, which escapes such characters. The other lines are fixed texts, a number,
  or the message of an exception, which holds escaped text or text printed before.
\<close>

definition print :: "printed \<Rightarrow> state \<Rightarrow> state" where
  "print p s = s\<lparr>stdout := stdout s @ [p]\<rparr>"

definition refused :: "env \<Rightarrow> json \<Rightarrow> bool" where
  "refused E v = (case v of JStr u \<Rightarrow> stdout_refuses E u | _ \<Rightarrow> False)"

definition print_value ::
  "env \<Rightarrow> (json \<Rightarrow> printed) \<Rightarrow> json \<Rightarrow> state \<Rightarrow> exn option \<times> state" where
  "print_value E line v s =
     (if refused E v then (Some UnicodeEncodeError, s) else (None, print (line v) s))"

definition requests_get :: "env \<Rightarrow> json \<Rightarrow> state \<Rightarrow> (exn + response) \<times> state" where
  "requests_get E uri s =
     (case http_get E (length (requests s)) uri of
        None \<Rightarrow> Inl RequestException
      | Some r \<Rightarrow> Inr r,
      s\<lparr>requests := requests s @ [uri]\<rparr>)"

text \<open>
  \<^verbatim>\<open>response.raise_for_status()\<close> of the requests library raises \<^verbatim>\<open>HTTPError\<close>, a
  \<^verbatim>\<open>RequestException\<close>, for the statuses 400 to 599 and for no other.
\<close>

definition http_error :: "response \<Rightarrow> bool" where
  "http_error r = (400 \<le> status_code r \<and> status_code r < 600)"

definition raise_for_status :: "response \<Rightarrow> exn option" where
  "raise_for_status r = (if http_error r then Some RequestException else None)"

definition resize :: "image \<Rightarrow> nat \<times> nat \<Rightarrow> image" where
  "resize im wh = Image (fst wh) (snd wh) (pixels im)"

section \<open>The fetch pipeline\<close>

text \<open>
  \<^verbatim>\<open>fetch_image\<close> (lines 49-64). The body of the \<^verbatim>\<open>try\<close> gives the exception
  it raises or the resized image; the two handlers print and fall off the end of the
  function, which returns \<^verbatim>\<open>None\<close>.
\<close>

definition fetch_image_try :: "env \<Rightarrow> string \<Rightarrow> state \<Rightarrow> (exn + image) \<times> state" where
  "fetch_image_try E image_uri s =
     (case requests_get E (JStr image_uri) s of
        (Inl e, s1) \<Rightarrow> (Inl e, s1)
      | (Inr response, s1) \<Rightarrow>
          (case raise_for_status response of
             Some e \<Rightarrow> (Inl e, s1)
           | None \<Rightarrow>
               (case image_open E (content response) of
                  None \<Rightarrow> (Inl UnidentifiedImageError, s1)
                | Some img \<Rightarrow> (Inr (resize img (400, 400)), s1))))"

definition fetch_image :: "env \<Rightarrow> string \<Rightarrow> state \<Rightarrow> image option \<times> state" where
  "fetch_image E image_uri s =
     (case fetch_image_try E image_uri s of
        (Inr img, s1) \<Rightarrow> (Some img, s1)
      | (Inl e, s1) \<Rightarrow>
          (None, print (if e = RequestException then FailedToFetchImage e
                        else ErrorLoadingImage e) s1))"

text \<open>
  \<^verbatim>\<open>fetch_metadata_and_image\<close> (lines 19-45), in the same way. Where the metadata
  has no \<^verbatim>\<open>image\<close> the body ends without a \<^verbatim>\<open>return\<close>: the result is
  \<^verbatim>\<open>None\<close>. Only a string has \<^verbatim>\<open>startswith\<close>, so the last branch of the
  case on \<open>image_uri\<close> is never taken. A \<^verbatim>\<open>print\<close> of lines 27 and 37 that raises
  does so inside the \<^verbatim>\<open>try\<close>, and the second handler reports it.
\<close>

definition fetch_metadata_and_image_try ::
  "env \<Rightarrow> json \<Rightarrow> state \<Rightarrow> (exn + image option) \<times> state" where
  "fetch_metadata_and_image_try E metadata_uri s =
     (case requests_get E metadata_uri s of
        (Inl e, s1) \<Rightarrow> (Inl e, s1)
      | (Inr response, s1) \<Rightarrow>
          (case raise_for_status response of
             Some e \<Rightarrow> (Inl e, s1)
           | None \<Rightarrow>
               (case json_body response of
                  Inl e \<Rightarrow> (Inl e, s1)
                | Inr metadata \<Rightarrow>
                    (case print_value E Metadata metadata s1 of
                       (Some e, s2) \<Rightarrow> (Inl e, s2)
                     | (None, s2) \<Rightarrow>
                         (case py_in ''image'' metadata of
                            Inl e \<Rightarrow> (Inl e, s2)
                          | Inr False \<Rightarrow> (Inr None, s2)
                          | Inr True \<Rightarrow>
                              (case py_getitem metadata ''image'' of
                                 Inl e \<Rightarrow> (Inl e, s2)
                               | Inr image_uri \<Rightarrow>
                                   (case py_startswith image_uri ''ipfs://'' of
                                      Inl e \<Rightarrow> (Inl e, s2)
                                    | Inr b \<Rightarrow>
                                        (case image_uri of
                                           JStr u \<Rightarrow>
                                             (let u' = rewrite_image_uri u in
                                              case print_value E
                                                     (\<lambda>v. FetchingImageFrom u') (JStr u') s2 of
                                                (Some e, s3) \<Rightarrow> (Inl e, s3)
                                              | (None, s3) \<Rightarrow>
                                                  (let (img, s4) = fetch_image E u' s3
                                                   in (Inr img, s4)))
                                         | _ \<Rightarrow> (Inl AttributeError, s2)))))))))"

definition fetch_metadata_and_image ::
  "env \<Rightarrow> json \<Rightarrow> state \<Rightarrow> image option \<times> state" where
  "fetch_metadata_and_image E metadata_uri s =
     (case fetch_metadata_and_image_try E metadata_uri s of
        (Inr img, s1) \<Rightarrow> (img, s1)
      | (Inl e, s1) \<Rightarrow>
          (None, print (if e = RequestException then FailedToFetchMetadata e
                        else ErrorProcessingMetadataOrImage e) s1))"

section \<open>The subscriber\<close>

text \<open>
  Lines 83-96: what the receive loop does with one message, as the body of the
  \<^verbatim>\<open>try\<close> of line 74 sees it: the exception that leaves the loop, or none. The
  \<^verbatim>\<open>print\<close> of line 88 has no handler closer than that \<^verbatim>\<open>try\<close>.
\<close>

definition on_message :: "env \<Rightarrow> string \<Rightarrow> state \<Rightarrow> exn option \<times> state" where
  "on_message E message s =
     (case json_loads E message of
        None \<Rightarrow> (Some JSONDecodeError, s)
      | Some data \<Rightarrow>
          (case py_in ''uri'' data of
             Inl e \<Rightarrow> (Some e, s)
           | Inr False \<Rightarrow> (None, s)
           | Inr True \<Rightarrow>
               (case py_getitem data ''uri'' of
                  Inl e \<Rightarrow> (Some e, s)
                | Inr metadata_uri \<Rightarrow>
                    (case print_value E MetadataUriFound metadata_uri s of
                       (Some e, s1) \<Rightarrow> (Some e, s1)
                     | (None, s1) \<Rightarrow>
                         (let (img, s2) = fetch_metadata_and_image E metadata_uri s1
                          in case img of
                               None \<Rightarrow> (None, s2)
                             | Some im \<Rightarrow>
                                 if \<not> full (image_queue s2)
                                 then (None, s2\<lparr>image_queue := put im (image_queue s2)\<rparr>)
                                 else (None, print QueueFullDroppingOldestImage s2))))))"

text \<open>Lines 100-103: the two handlers of the \<^verbatim>\<open>try\<close> of line 74.\<close>

definition handle :: "exn \<Rightarrow> state \<Rightarrow> state" where
  "handle e s =
     print (if e = ConnectionClosed then ConnectionClosedReconnecting else WebSocketError e) s"

text \<open>
  Line 73: the test of the outer loop; the subscriber connects again or returns.
\<close>

definition outer_loop :: "state \<Rightarrow> state" where
  "outer_loop s =
     (if \<not> shutdown_requested s then s\<lparr>pc := AtConnect, connects := connects s + 1\<rparr>
      else s\<lparr>pc := Returned\<rparr>)"

text \<open>
  Lines 105-108: after the \<^verbatim>\<open>try\<close> statement the subscriber announces the delay and
  sleeps, unless shutdown was requested; then the outer loop tests the flag again.
\<close>

definition after_try :: "state \<Rightarrow> state" where
  "after_try s =
     (if \<not> shutdown_requested s
      then (print (ReconnectingIn (retry_delay s)) s)
             \<lparr>pc := AtSleep, sleeps := sleeps s @ [retry_delay s]\<rparr>
      else outer_loop s)"

text \<open>
  Line 81: the test of the receive loop. Where it fails the loop ends, line 98 sets the
  delay to 1, and the connection is closed on the way out of the \<^verbatim>\<open>async with\<close>.
\<close>

definition inner_loop :: "state \<Rightarrow> state" where
  "inner_loop s =
     (if \<not> shutdown_requested s then s\<lparr>pc := AtRecv\<rparr>
      else after_try (s\<lparr>retry_delay := 1\<rparr>))"

text \<open>
  What happens to the process: the connection is made and the subscription sent, or that
  raises; a message arrives, or \<^verbatim>\<open>recv\<close> raises; the sleep ends; the signal handler
  (lines 112-115) or the end of \<^verbatim>\<open>main\<close> (line 176) sets the flag; the GUI thread
  runs \<^verbatim>\<open>update_task\<close> (lines 136-148), two seconds after its last update or
  earlier. An event the subscriber is not waiting for changes nothing.
\<close>

datatype event =
    Connected
  | ConnectRaises exn
  | Recv string
  | RecvRaises exn
  | Woken
  | Shutdown
  | UpdateTask bool

fun step :: "env \<Rightarrow> state \<Rightarrow> event \<Rightarrow> state" where
  "step E s Connected =
     (if pc s = AtConnect then inner_loop (print SubscribedToNewTokenEvents s) else s)"
| "step E s (ConnectRaises e) =
     (if pc s = AtConnect then after_try (handle e s) else s)"
| "step E s (Recv message) =
     (if pc s = AtRecv
      then (case on_message E message s of
              (None, s1) \<Rightarrow> inner_loop s1
            | (Some e, s1) \<Rightarrow> after_try (handle e s1))
      else s)"
| "step E s (RecvRaises e) =
     (if pc s = AtRecv then after_try (handle e s) else s)"
| "step E s Woken =
     (if pc s = AtSleep then outer_loop (s\<lparr>retry_delay := min (retry_delay s * 2) 30\<rparr>)
      else s)"
| "step E s Shutdown = s\<lparr>shutdown_requested := True\<rparr>"
| "step E s (UpdateTask two_seconds_passed) =
     (if \<not> empty (image_queue s) \<and> two_seconds_passed
      then s\<lparr>image_queue := get (image_queue s)\<rparr>
      else s)"

definition run :: "env \<Rightarrow> state \<Rightarrow> event list \<Rightarrow> state" where
  "run E s evs = foldl (step E) s evs"

text \<open>
  The process as \<^verbatim>\<open>main\<close> starts it: the flag clear and the queue empty (lines
  14-15), \<^verbatim>\<open>subscribe\<close> at its first test of the outer loop with a delay of 1
  (line 71).
\<close>

definition start :: state where
  "start =
     outer_loop
       \<lparr>pc = AtConnect, retry_delay = 1, shutdown_requested = False,
        image_queue = \<lparr>maxsize = 5, items = []\<rparr>,
        stdout = [], requests = [], sleeps = [], connects = 0\<rparr>"

section \<open>A concrete world\<close>

text \<open>
  An environment to run the model in: a few messages as the feed sends them, a metadata
  server with a well-behaved token, a failing one, one that times out, one that answers
  with HTML, one that answers with status 300 and a body, and tokens whose metadata has
  no image or a number for one, a gateway that serves one picture, and a standard output
  that cannot encode one of the URIs (which stands for one with a lone surrogate).
\<close>

definition quoted :: "string \<Rightarrow> string" where
  "quoted x = CHR 0x22 # x @ [CHR 0x22]"

definition token_message :: "string \<Rightarrow> string" where
  "token_message u = ''{'' @ quoted ''uri'' @ '': '' @ quoted u @ ''}''"

definition ok_json :: "json \<Rightarrow> response" where
  "ok_json v = \<lparr>status_code = 200, json_body = Inr v, content = []\<rparr>"

definition world :: env where
  "world =
     \<lparr>json_loads =
        map_of
          ([(''{}'', JObj []), (''null'', JNull)] @
           map (\<lambda>u. (token_message u, JObj [(''uri'', JStr u)]))
             [''http://meta/ok'', ''http://meta/500'', ''http://meta/timeout'',
              ''http://meta/html'', ''http://meta/noimage'', ''http://meta/numimage'',
              ''http://meta/300'', ''http://meta/surrogate'']),
      http_get = (\<lambda>n. map_of
          [(JStr ''http://meta/ok'',
            ok_json (JObj [(''name'', JStr ''tok''), (''image'', JStr ''ipfs://abc/def'')])),
           (JStr ''http://meta/500'',
            \<lparr>status_code = 500, json_body = Inl JSONDecodeError, content = []\<rparr>),
           (JStr ''http://meta/300'',
            \<lparr>status_code = 300,
             json_body = Inr (JObj [(''image'', JStr ''ipfs://abc/def'')]), content = []\<rparr>),
           (JStr ''http://meta/html'',
            \<lparr>status_code = 200, json_body = Inl JSONDecodeError, content = ''<html>''\<rparr>),
           (JStr ''http://meta/noimage'', ok_json (JObj [(''name'', JStr ''tok'')])),
           (JStr ''http://meta/numimage'', ok_json (JObj [(''image'', JNum 7)])),
           (JStr ''https://ipfs.io/ipfs/abc/def'',
            \<lparr>status_code = 200, json_body = Inl JSONDecodeError, content = ''PNG''\<rparr>)]),
      image_open = map_of [(''PNG'', Image 64 48 ''PNG'')],
      stdout_refuses = (\<lambda>u. u = ''http://meta/surrogate'')\<rparr>"

text \<open>States of that world: subscribed and waiting for a message, in the backoff sleep
  after a failed connection, and subscribed with five images queued.\<close>

definition subscribed :: state where
  "subscribed = run world start [Connected]"

definition sleeping :: state where
  "sleeping = run world start [ConnectRaises OSError]"

definition five_queued :: state where
  "five_queued =
     run world start (Connected # replicate 5 (Recv (token_message ''http://meta/ok'')))"

text \<open>
  The delays slept so far are the first terms of 1, 2, 4, 8, 16, 30, 30, ... and, unless
  shutdown was requested, the current delay is the term the next sleep will take (the one
  of the sleep in progress while sleeping).
\<close>

definition on_schedule :: "state \<Rightarrow> bool" where
  "on_schedule s =
     (sleeps s = map (\<lambda>k. min (2 ^ k) 30) [0..<length (sleeps s)] \<and>
      (shutdown_requested s \<or>
       (if pc s = AtSleep
        then sleeps s \<noteq> [] \<and> retry_delay s = min (2 ^ (length (sleeps s) - 1)) 30
        else retry_delay s = min (2 ^ length (sleeps s)) 30)))"

section \<open>What the fetch pipeline and the control flow leave alone\<close>

lemmas fetch_defs =
  fetch_metadata_and_image_def fetch_metadata_and_image_try_def fetch_image_def
  fetch_image_try_def requests_get_def raise_for_status_def print_def print_value_def
  Let_def

lemma refused_simps [simp]:
  "refused E (JStr u) = stdout_refuses E u"
  "refused E (JObj kvs) = False"
  "refused E (JArr xs) = False"
  "refused E (JNum n) = False"
  "refused E (JBool b) = False"
  "refused E JNull = False"
  by (simp_all add: refused_def)

lemma fetch_image_frame:
  "pc (snd (fetch_image E u s)) = pc s \<and>
   retry_delay (snd (fetch_image E u s)) = retry_delay s \<and>
   shutdown_requested (snd (fetch_image E u s)) = shutdown_requested s \<and>
   image_queue (snd (fetch_image E u s)) = image_queue s \<and>
   sleeps (snd (fetch_image E u s)) = sleeps s \<and>
   connects (snd (fetch_image E u s)) = connects s \<and>
   requests (snd (fetch_image E u s)) = requests s @ [JStr u]"
  by (simp add: fetch_defs split: option.splits)

lemma fetch_metadata_and_image_frame:
  "pc (snd (fetch_metadata_and_image E u s)) = pc s \<and>
   retry_delay (snd (fetch_metadata_and_image E u s)) = retry_delay s \<and>
   shutdown_requested (snd (fetch_metadata_and_image E u s)) = shutdown_requested s \<and>
   image_queue (snd (fetch_metadata_and_image E u s)) = image_queue s \<and>
   sleeps (snd (fetch_metadata_and_image E u s)) = sleeps s \<and>
   connects (snd (fetch_metadata_and_image E u s)) = connects s"
  by (simp add: fetch_metadata_and_image_def fetch_metadata_and_image_try_def
      requests_get_def raise_for_status_def print_def print_value_def Let_def
      case_prod_beta fetch_image_frame
      split: option.splits sum.splits bool.splits json.splits)

lemmas loop_defs = outer_loop_def after_try_def inner_loop_def handle_def print_def

lemma on_message_frame:
  "pc (snd (on_message E m s)) = pc s \<and>
   retry_delay (snd (on_message E m s)) = retry_delay s \<and>
   shutdown_requested (snd (on_message E m s)) = shutdown_requested s \<and>
   sleeps (snd (on_message E m s)) = sleeps s \<and>
   connects (snd (on_message E m s)) = connects s \<and>
   maxsize (image_queue (snd (on_message E m s))) = maxsize (image_queue s)"
  by (simp add: on_message_def Let_def case_prod_beta print_def print_value_def put_def
      fetch_metadata_and_image_frame
      split: option.splits sum.splits bool.splits)

lemma on_message_queue:
  "image_queue (snd (on_message E m s)) = image_queue s \<or>
   (\<not> full (image_queue s) \<and>
    (\<exists>im. image_queue (snd (on_message E m s)) = put im (image_queue s)))"
  by (auto simp: on_message_def Let_def case_prod_beta print_def print_value_def
      fetch_metadata_and_image_frame
      split: option.splits sum.splits bool.splits)

lemma control_frame:
  "image_queue (print p s) = image_queue s"
  "image_queue (outer_loop s) = image_queue s"
  "image_queue (after_try s) = image_queue s"
  "image_queue (inner_loop s) = image_queue s"
  "image_queue (handle e s) = image_queue s"
  by (simp_all add: loop_defs)

lemma on_message_with_uri:
  assumes "json_loads E message = Some (JObj kvs)"
    and "map_of kvs ''uri'' = Some u"
    and "\<not> refused E u"
  shows "on_message E message s =
      (None,
       case fst (fetch_metadata_and_image E u (print (MetadataUriFound u) s)) of
         None \<Rightarrow> snd (fetch_metadata_and_image E u (print (MetadataUriFound u) s))
       | Some im \<Rightarrow>
           if \<not> full (image_queue s)
           then (snd (fetch_metadata_and_image E u (print (MetadataUriFound u) s)))
                   \<lparr>image_queue := put im (image_queue s)\<rparr>
           else print QueueFullDroppingOldestImage
                   (snd (fetch_metadata_and_image E u (print (MetadataUriFound u) s))))"
proof -
  from assms(2) have has: "''uri'' \<in> set (map fst kvs)"
    by (metis map_of_eq_None_iff option.distinct(1) set_map)
  have q: "image_queue (snd (fetch_metadata_and_image E u (print (MetadataUriFound u) s))) =
           image_queue s"
    by (simp add: fetch_metadata_and_image_frame print_def)
  show ?thesis
    using assms has
    by (simp add: on_message_def print_value_def Let_def case_prod_beta q
        split: option.splits)
qed

text \<open>Once \<^verbatim>\<open>subscribe\<close> has returned nothing more happens on its side.\<close>

lemma returned_is_final:
  assumes "pc s = Returned"
  shows "pc (run E s evs) = Returned \<and> connects (run E s evs) = connects s \<and>
         sleeps (run E s evs) = sleeps s \<and> stdout (run E s evs) = stdout s"
  using assms
proof (induction evs arbitrary: s)
  case Nil
  then show ?case by (simp add: run_def)
next
  case (Cons ev evs)
  have "pc (step E s ev) = Returned \<and> connects (step E s ev) = connects s \<and>
        sleeps (step E s ev) = sleeps s \<and> stdout (step E s ev) = stdout s"
    using Cons.prems by (cases ev) simp_all
  moreover have "run E s (ev # evs) = run E (step E s ev) evs" by (simp add: run_def)
  ultimately show ?case using Cons.IH [of "step E s ev"] by simp
qed

section \<open>The concrete world, evaluated\<close>

lemmas world_defs = world_def token_message_def quoted_def ok_json_def

lemma subscribed_eq:
  "subscribed =
     \<lparr>pc = AtRecv, retry_delay = 1, shutdown_requested = False,
      image_queue = \<lparr>maxsize = 5, items = []\<rparr>,
      stdout = [SubscribedToNewTokenEvents], requests = [], sleeps = [], connects = 1\<rparr>"
  by (simp add: subscribed_def run_def start_def loop_defs)

lemma start_connected: "step world start Connected = subscribed"
  by (simp add: subscribed_def run_def)

lemma loads_token:
  "json_loads world (token_message ''http://meta/ok'') = Some (JObj [(''uri'', JStr ''http://meta/ok'')])"
  "json_loads world (token_message ''http://meta/500'') = Some (JObj [(''uri'', JStr ''http://meta/500'')])"
  by (simp_all add: world_defs)

lemma accepts:
  "\<not> refused world (JStr ''http://meta/ok'')"
  "\<not> refused world (JStr ''http://meta/500'')"
  "\<not> refused world (JStr ''http://meta/300'')"
  "\<not> refused world (JStr ''https://ipfs.io/ipfs/abc/def'')"
  "refused world (JStr ''http://meta/surrogate'')"
  by (simp_all add: world_def)

lemma get_ok: "http_get world n (JStr ''http://meta/ok'') =
   Some (ok_json (JObj [(''name'', JStr ''tok''), (''image'', JStr ''ipfs://abc/def'')]))"
  by (simp add: world_def)

lemma get_img: "http_get world n (JStr ''https://ipfs.io/ipfs/abc/def'') =
   Some \<lparr>status_code = 200, json_body = Inl JSONDecodeError, content = ''PNG''\<rparr>"
  by (simp add: world_def)


lemma get_300: "http_get world n (JStr ''http://meta/300'') =
    Some \<lparr>status_code = 300,
          json_body = Inr (JObj [(''image'', JStr ''ipfs://abc/def'')]), content = []\<rparr>"
  by (simp add: world_def)

lemma get_500: "http_get world n (JStr ''http://meta/500'') =
    Some \<lparr>status_code = 500, json_body = Inl JSONDecodeError, content = []\<rparr>"
  by (simp add: world_def)

lemma open_png: "image_open world ''PNG'' = Some (Image 64 48 ''PNG'')"
  by (simp add: world_def)

lemma rewrite_abc_def: "rewrite_image_uri ''ipfs://abc/def'' = ''https://ipfs.io/ipfs/abc/def''"
  by (simp add: rewrite_image_uri_def py_replace.simps)

lemma fetch_ok:
  "fetch_metadata_and_image world (JStr ''http://meta/ok'') s =
     (Some (Image 400 400 ''PNG''),
      s\<lparr>stdout := stdout s @
           [Metadata (JObj [(''name'', JStr ''tok''), (''image'', JStr ''ipfs://abc/def'')]),
            FetchingImageFrom ''https://ipfs.io/ipfs/abc/def''],
         requests := requests s @ [JStr ''http://meta/ok'', JStr ''https://ipfs.io/ipfs/abc/def'']\<rparr>)"
  using accepts(4)
  by (simp add: fetch_defs get_ok get_img rewrite_abc_def open_png ok_json_def resize_def
      http_error_def)

lemma recv_ok:
  assumes "pc s = AtRecv" and "\<not> shutdown_requested s"
  shows "step world s (Recv (token_message ''http://meta/ok'')) =
     (if \<not> full (image_queue s)
      then s\<lparr>stdout := stdout s @
           [MetadataUriFound (JStr ''http://meta/ok''),
            Metadata (JObj [(''name'', JStr ''tok''), (''image'', JStr ''ipfs://abc/def'')]),
            FetchingImageFrom ''https://ipfs.io/ipfs/abc/def''],
         requests := requests s @ [JStr ''http://meta/ok'', JStr ''https://ipfs.io/ipfs/abc/def''],
         image_queue := put (Image 400 400 ''PNG'') (image_queue s)\<rparr>
      else s\<lparr>stdout := stdout s @
           [MetadataUriFound (JStr ''http://meta/ok''),
            Metadata (JObj [(''name'', JStr ''tok''), (''image'', JStr ''ipfs://abc/def'')]),
            FetchingImageFrom ''https://ipfs.io/ipfs/abc/def'',
            QueueFullDroppingOldestImage],
         requests := requests s @ [JStr ''http://meta/ok'', JStr ''https://ipfs.io/ipfs/abc/def'']\<rparr>)"
proof -
  have "map_of [(''uri'', JStr ''http://meta/ok'')] ''uri'' = Some (JStr ''http://meta/ok'')"
    by simp
  from on_message_with_uri [OF loads_token(1) this accepts(1), of s] assms show ?thesis
    by (simp add: fetch_ok inner_loop_def print_def)
qed

lemma five_queued_facts:
  "pc five_queued = AtRecv \<and> \<not> shutdown_requested five_queued \<and>
   image_queue five_queued = \<lparr>maxsize = 5, items = replicate 5 (Image 400 400 ''PNG'')\<rparr>"
  unfolding five_queued_def run_def foldl.simps start_connected subscribed_eq
  by (simp add: recv_ok full_def put_def numeral_eq_Suc del: step.simps)

section \<open>The rewrite of the image URI\<close>

lemma py_replace_absent:
  "old \<noteq> [] \<Longrightarrow> \<not> sublist old s \<Longrightarrow> py_replace s old new = s"
proof (induction s old new rule: py_replace.induct)
  case (1 s old new)
  show ?case
  proof (cases s)
    case Nil
    with 1 show ?thesis by (simp add: py_replace.simps)
  next
    case (Cons c cs)
    from 1(4) have np: "\<not> prefix old s" by (auto simp: prefix_def sublist_def)
    from 1(4) Cons have "\<not> sublist old cs" by (auto simp: sublist_Cons_right)
    with 1 np Cons show ?thesis by (subst py_replace.simps) simp
  qed
qed

lemma rewrite_no_prefix: "\<not> prefix ''ipfs://'' u \<Longrightarrow> rewrite_image_uri u = u"
  by (simp add: rewrite_image_uri_def)

lemma rewrite_prefix:
  assumes "\<not> sublist ''ipfs://'' rest"
  shows "rewrite_image_uri (''ipfs://'' @ rest) = ''https://ipfs.io/ipfs/'' @ rest"
proof -
  have "py_replace (''ipfs://'' @ rest) ''ipfs://'' ''https://ipfs.io/ipfs/'' =
        ''https://ipfs.io/ipfs/'' @ py_replace rest ''ipfs://'' ''https://ipfs.io/ipfs/''"
    by (subst py_replace.simps) simp
  with assms show ?thesis
    by (simp add: rewrite_image_uri_def py_replace_absent)
qed

text \<open>
  Claim C3 says the rewrite is an exact prefix substitution. The two lemmas above are the
  part of it that holds. It fails for a URI that starts with \<^verbatim>\<open>ipfs://\<close> and
  contains \<^verbatim>\<open>ipfs://\<close> again: \<^verbatim>\<open>replace\<close> rewrites both occurrences, where a
  prefix substitution gives \<^verbatim>\<open>https://ipfs.io/ipfs/a/ipfs://b\<close>.
\<close>

theorem rewrite_replaces_every_occurrence:
  "rewrite_image_uri ''ipfs://a/ipfs://b'' = ''https://ipfs.io/ipfs/a/https://ipfs.io/ipfs/b'' \<and>
   rewrite_image_uri ''ipfs://a/ipfs://b'' \<noteq> ''https://ipfs.io/ipfs/'' @ ''a/ipfs://b''"
  by (simp add: rewrite_image_uri_def py_replace.simps)

section \<open>The queue\<close>

lemma step_queue:
  "image_queue (step E s ev) = image_queue s \<or>
   (\<not> full (image_queue s) \<and> (\<exists>im. image_queue (step E s ev) = put im (image_queue s))) \<or>
   (\<not> empty (image_queue s) \<and> image_queue (step E s ev) = get (image_queue s))"
proof (cases ev)
  case (Recv m)
  show ?thesis
    using on_message_queue [of E m s]
    by (cases "on_message E m s"; cases "fst (on_message E m s)")
       (auto simp: Recv control_frame)
qed (simp_all add: control_frame)

lemma step_queue_bounded:
  assumes "0 < maxsize (image_queue s)"
    and "length (items (image_queue s)) \<le> maxsize (image_queue s)"
  shows "maxsize (image_queue (step E s ev)) = maxsize (image_queue s) \<and>
         length (items (image_queue (step E s ev))) \<le> maxsize (image_queue s)"
  using step_queue [of E s ev] assms
  by (auto simp: full_def put_def get_def empty_def)

lemma run_queue_bounded:
  assumes "0 < maxsize (image_queue s)"
    and "length (items (image_queue s)) \<le> maxsize (image_queue s)"
  shows "maxsize (image_queue (run E s evs)) = maxsize (image_queue s) \<and>
         length (items (image_queue (run E s evs))) \<le> maxsize (image_queue s)"
  using assms
proof (induction evs arbitrary: s)
  case Nil
  then show ?case by (simp add: run_def)
next
  case (Cons ev evs)
  have unfold: "run E s (ev # evs) = run E (step E s ev) evs"
    by (simp add: run_def)
  from step_queue_bounded [OF Cons.prems, of E ev]
  have same: "maxsize (image_queue (step E s ev)) = maxsize (image_queue s)"
    and le: "length (items (image_queue (step E s ev))) \<le> maxsize (image_queue s)"
    by simp_all
  from Cons.prems same le
  have "maxsize (image_queue (run E (step E s ev) evs)) = maxsize (image_queue (step E s ev)) \<and>
        length (items (image_queue (run E (step E s ev) evs))) \<le> maxsize (image_queue (step E s ev))"
    by (intro Cons.IH) simp_all
  with same unfold show ?case by simp
qed

text \<open>
  Claim C5. Whatever happens to the process, in whatever order (messages received and
  images put by the subscriber, images taken by \<^verbatim>\<open>update_task\<close>, failures, sleeps,
  the shutdown flag), the queue never holds more than five images, and its
  \<^verbatim>\<open>maxsize\<close> stays 5.
\<close>

theorem queue_length_never_exceeds_capacity:
  "length (items (image_queue (run E start evs))) \<le> 5 \<and>
   maxsize (image_queue (run E start evs)) = 5"
  using run_queue_bounded [of start E evs]
  by (simp add: start_def outer_loop_def)

text \<open>
  Claim C4. With the queue full, an image that was fetched is not put: the step ends in
  the state the fetch left, plus the line that reports the full queue; the queue is the
  one before the message, and the subscriber waits for the next message. (An image is
  fetched only for a message with a URI that line 88 could print.)
\<close>

theorem full_queue_rejects_incoming:
  assumes "pc s = AtRecv" and "\<not> shutdown_requested s"
    and "full (image_queue s)"
    and "json_loads E message = Some (JObj kvs)"
    and "map_of kvs ''uri'' = Some metadata_uri"
    and "\<not> refused E metadata_uri"
    and "fetch_metadata_and_image E metadata_uri (print (MetadataUriFound metadata_uri) s) =
           (Some im, s2)"
  shows "step E s (Recv message) = print QueueFullDroppingOldestImage s2 \<and>
         image_queue (step E s (Recv message)) = image_queue s \<and>
         pc (step E s (Recv message)) = AtRecv"
proof -
  from fetch_metadata_and_image_frame
         [of E metadata_uri "print (MetadataUriFound metadata_uri) s"] assms(1,2,7)
  have frame: "pc s2 = AtRecv" "\<not> shutdown_requested s2" "image_queue s2 = image_queue s"
    by (simp_all add: print_def)
  from on_message_with_uri [OF assms(4,5,6), of s] assms(3,7)
  have "on_message E message s = (None, print QueueFullDroppingOldestImage s2)"
    by simp
  with assms(1) frame show ?thesis
    by (simp add: inner_loop_def print_def)
qed

theorem full_queue_rejects_incoming_witness:
  "full (image_queue five_queued) \<and>
   image_queue (step world five_queued (Recv (token_message ''http://meta/ok''))) =
     \<lparr>maxsize = 5, items = replicate 5 (Image 400 400 ''PNG'')\<rparr> \<and>
   pc (step world five_queued (Recv (token_message ''http://meta/ok''))) = AtRecv \<and>
   last (stdout (step world five_queued (Recv (token_message ''http://meta/ok'')))) =
     QueueFullDroppingOldestImage"
proof -
  from five_queued_facts have a: "pc five_queued = AtRecv"
    and b: "\<not> shutdown_requested five_queued"
    and q: "image_queue five_queued = \<lparr>maxsize = 5, items = replicate 5 (Image 400 400 ''PNG'')\<rparr>"
    by simp_all
  from q have c: "full (image_queue five_queued)" by (simp add: full_def)
  have d: "map_of [(''uri'', JStr ''http://meta/ok'')] ''uri'' = Some (JStr ''http://meta/ok'')"
    by simp
  from full_queue_rejects_incoming [OF a b c loads_token(1) d accepts(1) fetch_ok] a q c
  show ?thesis by (simp add: print_def del: step.simps)
qed

section \<open>The backoff delay\<close>

text \<open>
  Claim C1 says the delay doubles from 1 up to the cap of 30 over consecutive failures and
  is 1 again right after a successful subscribe. Here a first connection fails, the
  second one succeeds and is then closed by the peer: the delay is still 2 after the
  successful subscribe, and the sleeps are 1 and 2 seconds, not 1 and 1. Line 98 sets the
  delay to 1 only once the receive loop has ended on the shutdown flag.
\<close>

theorem delay_not_reset_by_subscribe:
  "retry_delay (run world start [ConnectRaises OSError, Woken, Connected]) = 2 \<and>
   sleeps (run world start
     [ConnectRaises OSError, Woken, Connected, RecvRaises ConnectionClosed]) = [1, 2]"
  by (simp add: run_def start_def loop_defs)

text \<open>The doubling and the cap, over a streak of failed connection attempts.\<close>

lemma failed_attempt:
  assumes "pc s = AtConnect" and "\<not> shutdown_requested s"
  shows "pc (run E s [ConnectRaises e, Woken]) = AtConnect \<and>
         \<not> shutdown_requested (run E s [ConnectRaises e, Woken]) \<and>
         sleeps (run E s [ConnectRaises e, Woken]) = sleeps s @ [retry_delay s] \<and>
         retry_delay (run E s [ConnectRaises e, Woken]) = min (retry_delay s * 2) 30"
  using assms by (simp add: run_def loop_defs)

lemma run_append: "run E s (xs @ ys) = run E (run E s xs) ys"
  by (simp add: run_def)

lemma min_scaled:
  assumes "0 \<le> x"
  shows "min (min x 30 * 2 ^ k) 30 = min (x * 2 ^ k) (30::int)"
proof (cases "x \<le> 30")
  case True
  then show ?thesis by simp
next
  case False
  have one: "(1::int) \<le> 2 ^ k" by simp
  have "x \<le> x * 2 ^ k" using mult_left_mono [OF one assms] by simp
  with False have "30 < x * 2 ^ k" by linarith
  moreover from one have "(30::int) \<le> 30 * 2 ^ k" by simp
  ultimately show ?thesis using False by simp
qed

lemma min_double:
  assumes "0 \<le> d"
  shows "min (min (d * 2) 30 * 2 ^ k) 30 = min (d * 2 ^ Suc k) (30::int)"
  using min_scaled [of "d * 2" k] assms by (simp add: mult.assoc)

lemma failure_streak:
  assumes "pc s = AtConnect" and "\<not> shutdown_requested s"
    and "0 \<le> retry_delay s" and "retry_delay s \<le> 30"
  shows "sleeps (run E s (concat (map (\<lambda>e. [ConnectRaises e, Woken]) es))) =
           sleeps s @ map (\<lambda>k. min (retry_delay s * 2 ^ k) 30) [0..<length es]"
  using assms
proof (induction es arbitrary: s)
  case Nil
  then show ?case by (simp add: run_def)
next
  case (Cons e es)
  let ?s1 = "run E s [ConnectRaises e, Woken]"
  note one = failed_attempt [OF Cons.prems(1,2), of E e]
  from one Cons.prems(3) have nonneg: "0 \<le> retry_delay ?s1" and le: "retry_delay ?s1 \<le> 30"
    by simp_all
  have split: "run E s (concat (map (\<lambda>e. [ConnectRaises e, Woken]) (e # es))) =
        run E ?s1 (concat (map (\<lambda>e. [ConnectRaises e, Woken]) es))"
    by (simp add: run_def)
  from one have a: "pc ?s1 = AtConnect" and b: "\<not> shutdown_requested ?s1" by simp_all
  have shift: "map (\<lambda>k. min (retry_delay s * 2 ^ k) 30) [0..<length (e # es)] =
        retry_delay s # map (\<lambda>k. min (min (retry_delay s * 2) 30 * 2 ^ k) 30) [0..<length es]"
  proof -
    have "[0..<length (e # es)] = 0 # map Suc [0..<length es]"
      by (simp add: upt_conv_Cons map_Suc_upt del: upt_Suc)
    moreover have "retry_delay s * 2 ^ 0 = retry_delay s" by simp
    ultimately show ?thesis
      using Cons.prems(3,4) by (simp add: min_double comp_def del: upt_Suc)
  qed
  show ?case
    unfolding split Cons.IH [OF a b nonneg le] shift using one by simp
qed

lemma backoff_sequence:
  "sleeps (run E start (concat (map (\<lambda>e. [ConnectRaises e, Woken]) es))) =
     map (\<lambda>k. min (2 ^ k) 30) [0..<length es]"
  using failure_streak [of start E es] by (simp add: start_def outer_loop_def)

lemma backoff_sequence_seven:
  "sleeps (run E start (concat (replicate 7 [ConnectRaises e, Woken]))) = [1, 2, 4, 8, 16, 30, 30]"
  by (simp add: run_def start_def loop_defs numeral_eq_Suc)

text \<open>The delay stays between 1 and 30 in every run.\<close>

lemma step_delay_in_range:
  assumes "1 \<le> retry_delay s" and "retry_delay s \<le> 30"
  shows "1 \<le> retry_delay (step E s ev) \<and> retry_delay (step E s ev) \<le> 30"
proof (cases ev)
  case (Recv m)
  with assms on_message_frame [of E m s] show ?thesis
    by (cases "on_message E m s"; cases "fst (on_message E m s)") (auto simp: loop_defs)
qed (use assms in \<open>auto simp: loop_defs\<close>)

lemma delay_in_range:
  "1 \<le> retry_delay (run E start evs) \<and> retry_delay (run E start evs) \<le> 30"
proof (induction evs rule: rev_induct)
  case Nil
  show ?case by (simp add: run_def start_def outer_loop_def)
next
  case (snoc ev evs)
  then show ?case using step_delay_in_range [of "run E start evs" E ev]
    by (simp add: run_def)
qed

text \<open>The invariant behind the whole sequence of sleeps of a run.\<close>

lemma next_delay: "min (min (2 ^ n) 30 * 2) 30 = min (2 ^ Suc n) (30::int)"
  using min_scaled [of "2 ^ n" 1] by simp

lemma after_try_on_schedule:
  assumes "on_schedule s" and "pc s \<noteq> AtSleep"
  shows "on_schedule (after_try s)"
  using assms by (auto simp: on_schedule_def loop_defs)

lemma handle_on_schedule: "on_schedule (handle e s) = on_schedule s"
  by (simp add: on_schedule_def loop_defs)

lemma inner_loop_on_schedule:
  assumes "on_schedule s" and "pc s \<noteq> AtSleep"
  shows "on_schedule (inner_loop s)"
  using assms by (auto simp: on_schedule_def loop_defs)

lemma step_on_schedule:
  assumes "on_schedule s"
  shows "on_schedule (step E s ev)"
proof (cases ev)
  case Connected
  with assms inner_loop_on_schedule [of "print SubscribedToNewTokenEvents s"] show ?thesis
    by (auto simp: on_schedule_def print_def)
next
  case (ConnectRaises e)
  with assms after_try_on_schedule [of "handle e s"] show ?thesis
    by (auto simp: handle_on_schedule) (simp add: loop_defs)
next
  case (Recv m)
  obtain x s2 where om: "on_message E m s = (x, s2)" by (cases "on_message E m s")
  from on_message_frame [of E m s] om assms have s2: "on_schedule s2" "pc s2 = pc s"
    by (auto simp: on_schedule_def split: if_splits)
  show ?thesis
  proof (cases "pc s = AtRecv")
    case True
    with s2 inner_loop_on_schedule [of s2] after_try_on_schedule [of "handle e s2" for e]
    show ?thesis
      by (cases x) (simp_all add: Recv om handle_on_schedule, simp_all add: loop_defs)
  next
    case False
    with assms show ?thesis by (simp add: Recv)
  qed
next
  case (RecvRaises e)
  with assms after_try_on_schedule [of "handle e s"] show ?thesis
    by (auto simp: handle_on_schedule) (simp add: loop_defs)
next
  case Woken
  show ?thesis
  proof (cases "pc s = AtSleep")
    case True
    show ?thesis
    proof (cases "shutdown_requested s")
      case True
      with assms \<open>pc s = AtSleep\<close> show ?thesis
        by (simp add: Woken on_schedule_def outer_loop_def)
    next
      case False
      with assms \<open>pc s = AtSleep\<close> obtain n where n: "length (sleeps s) = Suc n"
        and d: "retry_delay s = min (2 ^ n) 30"
        and sl: "sleeps s = map (\<lambda>k. min (2 ^ k) 30) [0..<length (sleeps s)]"
        by (cases "sleeps s") (auto simp: on_schedule_def)
      from next_delay [of n] d n have "min (retry_delay s * 2) 30 = min (2 ^ length (sleeps s)) 30"
        by simp
      with False \<open>pc s = AtSleep\<close> sl show ?thesis
        by (simp add: Woken on_schedule_def outer_loop_def)
    qed
  next
    case False
    with assms show ?thesis by (simp add: Woken)
  qed
next
  case Shutdown
  with assms show ?thesis by (simp add: on_schedule_def)
next
  case (UpdateTask b)
  with assms show ?thesis by (auto simp: on_schedule_def split: if_splits)
qed

lemma run_on_schedule: "on_schedule (run E start evs)"
proof (induction evs rule: rev_induct)
  case Nil
  show ?case by (simp add: run_def start_def outer_loop_def on_schedule_def)
next
  case (snoc ev evs)
  then show ?case using step_on_schedule [of "run E start evs" E ev] by (simp add: run_def)
qed

text \<open>
  In every run the delays slept are 1, 2, 4, 8, 16, 30, 30, ... from the first sleep of
  the run on, whatever connections succeeded in between.
\<close>

lemma delays_never_start_over:
  "sleeps (run E start evs) = map (\<lambda>k. min (2 ^ k) 30) [0..<length (sleeps (run E start evs))]"
  using run_on_schedule [of E evs] by (simp add: on_schedule_def)

section \<open>Messages that are not JSON\<close>

text \<open>
  Claim C2 says a message that does not parse is logged and discarded and the receive
  loop goes on with the same connection. In the code \<^verbatim>\<open>json.loads\<close> raises inside the
  \<^verbatim>\<open>try\<close> of line 74, whose handlers are outside the \<^verbatim>\<open>async with\<close>: from the
  subscribed state the message \<^verbatim>\<open>not json\<close> takes the subscriber out of the receive
  loop and into the backoff sleep.
\<close>

theorem parse_failure_ends_receive_loop:
  "json_loads world ''not json'' = None \<and>
   pc subscribed = AtRecv \<and>
   pc (step world subscribed (Recv ''not json'')) = AtSleep \<and>
   sleeps (step world subscribed (Recv ''not json'')) = [1] \<and>
   stdout (step world subscribed (Recv ''not json'')) =
     [SubscribedToNewTokenEvents, WebSocketError JSONDecodeError, ReconnectingIn 1]"
  by (simp add: subscribed_eq on_message_def loop_defs world_defs)

text \<open>
  Claim C2 as the code has it: a message that does not parse is logged as a websocket
  error and discarded, no request is made and the queue is left alone; the receive loop
  ends, and the subscriber announces the current delay and sleeps before connecting
  again, or returns if shutdown was requested.
\<close>

theorem parse_failure_reconnects:
  assumes "pc s = AtRecv" and "json_loads E message = None"
  shows "step E s (Recv message) =
           (if shutdown_requested s
            then s\<lparr>pc := Returned, stdout := stdout s @ [WebSocketError JSONDecodeError]\<rparr>
            else s\<lparr>pc := AtSleep,
                   stdout := stdout s @
                     [WebSocketError JSONDecodeError, ReconnectingIn (retry_delay s)],
                   sleeps := sleeps s @ [retry_delay s]\<rparr>)"
  using assms by (simp add: on_message_def loop_defs)

theorem parse_failure_reconnects_witness:
  "pc subscribed = AtRecv \<and> json_loads world ''not json'' = None \<and>
   step world subscribed (Recv ''not json'') =
     subscribed\<lparr>pc := AtSleep,
       stdout := stdout subscribed @ [WebSocketError JSONDecodeError, ReconnectingIn 1],
       sleeps := [1]\<rparr>"
proof -
  have a: "pc subscribed = AtRecv" by (simp add: subscribed_eq)
  have b: "json_loads world ''not json'' = None" by (simp add: world_defs)
  from parse_failure_reconnects [OF a b] a b show ?thesis
    by (simp add: subscribed_eq)
qed

section \<open>Messages without a metadata URI\<close>

text \<open>
  Claim C6 says every message that is valid JSON and has no \<^verbatim>\<open>uri\<close> is discarded
  silently with the subscriber still subscribed. The message \<^verbatim>\<open>null\<close> is valid JSON
  without a \<^verbatim>\<open>uri\<close>, and on it the test of line 86 raises \<^verbatim>\<open>TypeError\<close>: the
  error is printed, the receive loop ends and the subscriber goes into the backoff sleep.
\<close>

theorem null_message_ends_receive_loop:
  "json_loads world ''null'' = Some JNull \<and>
   pc subscribed = AtRecv \<and>
   pc (step world subscribed (Recv ''null'')) = AtSleep \<and>
   sleeps (step world subscribed (Recv ''null'')) = [1] \<and>
   stdout (step world subscribed (Recv ''null'')) =
     [SubscribedToNewTokenEvents, WebSocketError TypeError, ReconnectingIn 1]"
  by (simp add: subscribed_eq on_message_def loop_defs world_defs)

text \<open>
  Claim C6 as the code has it. A message that parses to a mapping without the key
  \<^verbatim>\<open>uri\<close>, to a list that does not hold the string \<^verbatim>\<open>uri\<close>, or to a string that
  does not contain it, raises nothing and leaves the whole state as it was: nothing is
  printed, no request is made, the queue is untouched and the subscriber waits for the
  next message on the same connection. A message that parses to a number, a boolean or
  \<^verbatim>\<open>null\<close> makes the test of line 86 raise \<^verbatim>\<open>TypeError\<close>, and so does line 87
  on a list that holds the string \<^verbatim>\<open>uri\<close> or a string that contains it: the error is
  printed as a websocket error, no request is made, and the subscriber leaves the receive
  loop, announces the current delay and sleeps before connecting again.
\<close>

theorem message_without_uri_is_skipped:
  assumes "pc s = AtRecv" and "\<not> shutdown_requested s"
    and "json_loads E message = Some data"
  shows "((\<exists>kvs. data = JObj kvs \<and> ''uri'' \<notin> set (map fst kvs)) \<or>
          (\<exists>xs. data = JArr xs \<and> JStr ''uri'' \<notin> set xs) \<or>
          (\<exists>t. data = JStr t \<and> \<not> sublist ''uri'' t) \<longrightarrow>
            on_message E message s = (None, s) \<and> step E s (Recv message) = s) \<and>
         (data = JNull \<or> (\<exists>b. data = JBool b) \<or> (\<exists>n. data = JNum n) \<or>
          (\<exists>xs. data = JArr xs \<and> JStr ''uri'' \<in> set xs) \<or>
          (\<exists>t. data = JStr t \<and> sublist ''uri'' t) \<longrightarrow>
            step E s (Recv message) =
              s\<lparr>pc := AtSleep,
                 stdout := stdout s @ [WebSocketError TypeError, ReconnectingIn (retry_delay s)],
                 sleeps := sleeps s @ [retry_delay s]\<rparr>)"
  using assms by (auto simp: on_message_def loop_defs)

theorem message_without_uri_is_skipped_witness:
  "on_message world ''{}'' subscribed = (None, subscribed) \<and>
   step world subscribed (Recv ''{}'') = subscribed \<and>
   step world subscribed (Recv ''null'') =
     subscribed\<lparr>pc := AtSleep,
        stdout := [SubscribedToNewTokenEvents, WebSocketError TypeError, ReconnectingIn 1],
        sleeps := [1]\<rparr>"
proof -
  have a: "pc subscribed = AtRecv" and b: "\<not> shutdown_requested subscribed"
    by (simp_all add: subscribed_eq)
  have c: "json_loads world ''{}'' = Some (JObj [])"
    and c': "json_loads world ''null'' = Some JNull"
    by (simp_all add: world_defs)
  have d: "\<exists>kvs. JObj [] = JObj kvs \<and> ''uri'' \<notin> set (map fst kvs)" by simp
  from message_without_uri_is_skipped [OF a b c] d
  have first: "on_message world ''{}'' subscribed = (None, subscribed) \<and>
      step world subscribed (Recv ''{}'') = subscribed"
    by blast
  from message_without_uri_is_skipped [OF a b c']
  have "step world subscribed (Recv ''null'') =
      subscribed\<lparr>pc := AtSleep,
         stdout := stdout subscribed @
           [WebSocketError TypeError, ReconnectingIn (retry_delay subscribed)],
         sleeps := sleeps subscribed @ [retry_delay subscribed]\<rparr>"
    by blast
  moreover have "stdout subscribed = [SubscribedToNewTokenEvents]"
    "retry_delay subscribed = 1" "sleeps subscribed = []"
    by (simp_all add: subscribed_eq)
  ultimately show ?thesis using first by (simp del: step.simps)
qed

section \<open>Failures of the metadata fetch\<close>

lemma metadata_timeout:
  assumes "http_get E (length (requests s)) u = None"
  shows "fetch_metadata_and_image E u s =
           (None, s\<lparr>stdout := stdout s @ [FailedToFetchMetadata RequestException],
                     requests := requests s @ [u]\<rparr>)"
  using assms by (simp add: fetch_defs)

lemma metadata_http_error:
  assumes "http_get E (length (requests s)) u = Some r" and "http_error r"
  shows "fetch_metadata_and_image E u s =
           (None, s\<lparr>stdout := stdout s @ [FailedToFetchMetadata RequestException],
                     requests := requests s @ [u]\<rparr>)"
  using assms by (simp add: fetch_defs)

lemma metadata_unparsable:
  assumes "http_get E (length (requests s)) u = Some r" and "\<not> http_error r"
    and "json_body r = Inl e"
  shows "fetch_metadata_and_image E u s =
           (None, s\<lparr>stdout := stdout s @
                       [if e = RequestException then FailedToFetchMetadata e
                        else ErrorProcessingMetadataOrImage e],
                     requests := requests s @ [u]\<rparr>)"
  using assms by (simp add: fetch_defs)

text \<open>
  Claim C7 says a metadata fetch with a non-2xx status returns \<^verbatim>\<open>None\<close>. The code
  leaves the status to \<^verbatim>\<open>raise_for_status\<close>, which lets the status 300 pass: the body
  is parsed, the image is fetched, and the fetch returns it.
\<close>

theorem status_300_gives_image:
  "http_get world 0 (JStr ''http://meta/300'') =
     Some \<lparr>status_code = 300,
           json_body = Inr (JObj [(''image'', JStr ''ipfs://abc/def'')]), content = []\<rparr> \<and>
   fst (fetch_metadata_and_image world (JStr ''http://meta/300'') subscribed) =
     Some (Image 400 400 ''PNG'')"
  using accepts(4)
  by (simp add: fetch_defs get_300 get_img rewrite_abc_def open_png resize_def
      http_error_def subscribed_eq)

text \<open>
  The fetch is reached only once line 88 has printed the URI: where the standard output
  cannot encode it, \<^verbatim>\<open>print\<close> raises inside the \<^verbatim>\<open>try\<close> of line 74, no request
  is made, and the subscriber leaves the receive loop.
\<close>

lemma unprintable_uri_ends_receive_loop:
  assumes "pc s = AtRecv" and "\<not> shutdown_requested s"
    and "json_loads E message = Some (JObj kvs)"
    and "map_of kvs ''uri'' = Some metadata_uri"
    and "refused E metadata_uri"
  shows "step E s (Recv message) =
           s\<lparr>pc := AtSleep,
              stdout := stdout s @
                [WebSocketError UnicodeEncodeError, ReconnectingIn (retry_delay s)],
              sleeps := sleeps s @ [retry_delay s]\<rparr>"
proof -
  from assms(4) have "''uri'' \<in> set (map fst kvs)"
    by (metis map_of_eq_None_iff option.distinct(1) set_map)
  with assms show ?thesis
    by (simp add: on_message_def print_value_def loop_defs)
qed

text \<open>
  Claim C7 as the code has it. For a message with a metadata URI that line 88 can print,
  no exception leaves the processing of the message, whatever the fetches do, and the
  subscriber stays in the receive loop, waiting for the next message with the delay, the
  sleeps and the connection count as they were. Where the metadata request raises (a
  timeout), or the status is one of 400 to 599, for which \<^verbatim>\<open>raise_for_status\<close>
  raises, or the body does not parse, the fetch returns \<^verbatim>\<open>None\<close>, and the step only
  prints the URI and the failure and records the one request.
\<close>

theorem metadata_failure_stays_local:
  assumes "pc s = AtRecv" and "\<not> shutdown_requested s"
    and "json_loads E message = Some (JObj kvs)"
    and "map_of kvs ''uri'' = Some metadata_uri"
    and "\<not> refused E metadata_uri"
  shows "fst (on_message E message s) = None \<and>
         pc (step E s (Recv message)) = AtRecv \<and>
         retry_delay (step E s (Recv message)) = retry_delay s \<and>
         sleeps (step E s (Recv message)) = sleeps s \<and>
         connects (step E s (Recv message)) = connects s \<and>
         (http_get E (length (requests s)) metadata_uri = None \<or>
          (\<exists>r. http_get E (length (requests s)) metadata_uri = Some r \<and>
               (http_error r \<or> (\<exists>e. json_body r = Inl e))) \<longrightarrow>
          fst (fetch_metadata_and_image E metadata_uri
                 (print (MetadataUriFound metadata_uri) s)) = None \<and>
          (\<exists>e. step E s (Recv message) =
             s\<lparr>stdout := stdout s @
                  [MetadataUriFound metadata_uri,
                   if e = RequestException then FailedToFetchMetadata e
                   else ErrorProcessingMetadataOrImage e],
               requests := requests s @ [metadata_uri]\<rparr>))"
proof -
  let ?s1 = "print (MetadataUriFound metadata_uri) s"
  let ?f = "fetch_metadata_and_image E metadata_uri ?s1"
  note om = on_message_with_uri [OF assms(3,4,5), of s]
  then have none: "fst (on_message E message s) = None" by simp
  from om obtain s2 where s2: "on_message E message s = (None, s2)" by blast
  from on_message_frame [of E message s] s2 assms(1,2)
  have frame: "pc s2 = AtRecv" "\<not> shutdown_requested s2" "retry_delay s2 = retry_delay s"
    "sleeps s2 = sleeps s" "connects s2 = connects s"
    by simp_all
  from s2 assms(1) frame have st: "step E s (Recv message) = s2"
    by (simp add: inner_loop_def)
  have local: "fst ?f = None \<and>
      (\<exists>e. step E s (Recv message) =
             s\<lparr>stdout := stdout s @
                  [MetadataUriFound metadata_uri,
                   if e = RequestException then FailedToFetchMetadata e
                   else ErrorProcessingMetadataOrImage e],
               requests := requests s @ [metadata_uri]\<rparr>)"
    if fails: "http_get E (length (requests s)) metadata_uri = None \<or>
        (\<exists>r. http_get E (length (requests s)) metadata_uri = Some r \<and>
             (http_error r \<or> (\<exists>e. json_body r = Inl e)))"
  proof -
    have len: "length (requests ?s1) = length (requests s)" by (simp add: print_def)
    have "\<exists>e. ?f = (None, ?s1\<lparr>stdout := stdout ?s1 @
                       [if e = RequestException then FailedToFetchMetadata e
                        else ErrorProcessingMetadataOrImage e],
                     requests := requests ?s1 @ [metadata_uri]\<rparr>)"
    proof (cases "http_get E (length (requests s)) metadata_uri")
      case None
      with len have "http_get E (length (requests ?s1)) metadata_uri = None" by simp
      from metadata_timeout [OF this] show ?thesis
        by (intro exI [of _ RequestException]) simp
    next
      case (Some r)
      with len have get: "http_get E (length (requests ?s1)) metadata_uri = Some r" by simp
      show ?thesis
      proof (cases "http_error r")
        case True
        from metadata_http_error [OF get True] show ?thesis
          by (intro exI [of _ RequestException]) simp
      next
        case False
        with fails Some obtain e where "json_body r = Inl e" by auto
        from metadata_unparsable [OF get False this] show ?thesis
          by (intro exI [of _ e])
      qed
    qed
    then obtain e where f: "?f = (None, ?s1\<lparr>stdout := stdout ?s1 @
                       [if e = RequestException then FailedToFetchMetadata e
                        else ErrorProcessingMetadataOrImage e],
                     requests := requests ?s1 @ [metadata_uri]\<rparr>)" ..
    from f have a: "fst ?f = None" by simp
    from om f s2 have "s2 = ?s1\<lparr>stdout := stdout ?s1 @
                       [if e = RequestException then FailedToFetchMetadata e
                        else ErrorProcessingMetadataOrImage e],
                     requests := requests ?s1 @ [metadata_uri]\<rparr>"
      by simp
    then have "s2 = s\<lparr>stdout := stdout s @
                  [MetadataUriFound metadata_uri,
                   if e = RequestException then FailedToFetchMetadata e
                   else ErrorProcessingMetadataOrImage e],
               requests := requests s @ [metadata_uri]\<rparr>"
      by (simp add: print_def)
    with st a show ?thesis by blast
  qed
  from none st frame local show ?thesis by blast
qed

theorem metadata_failure_stays_local_witness:
  "pc (step world subscribed (Recv (token_message ''http://meta/500''))) = AtRecv \<and>
   sleeps (step world subscribed (Recv (token_message ''http://meta/500''))) = [] \<and>
   fst (fetch_metadata_and_image world (JStr ''http://meta/500'')
          (print (MetadataUriFound (JStr ''http://meta/500'')) subscribed)) = None \<and>
   (\<exists>e. step world subscribed (Recv (token_message ''http://meta/500'')) =
      subscribed\<lparr>stdout :=
          [SubscribedToNewTokenEvents, MetadataUriFound (JStr ''http://meta/500''),
           if e = RequestException then FailedToFetchMetadata e
           else ErrorProcessingMetadataOrImage e],
        requests := [JStr ''http://meta/500'']\<rparr>)"
proof -
  have a: "pc subscribed = AtRecv" and b: "\<not> shutdown_requested subscribed"
    by (simp_all add: subscribed_eq)
  have d: "map_of [(''uri'', JStr ''http://meta/500'')] ''uri'' = Some (JStr ''http://meta/500'')"
    by simp
  have fails: "http_get world (length (requests subscribed)) (JStr ''http://meta/500'') = None \<or>
     (\<exists>r. http_get world (length (requests subscribed)) (JStr ''http://meta/500'') = Some r \<and>
          (http_error r \<or> (\<exists>e. json_body r = Inl e)))"
    by (simp add: get_500 http_error_def)
  have facts: "sleeps subscribed = []" "requests subscribed = []"
    "stdout subscribed = [SubscribedToNewTokenEvents]"
    by (simp_all add: subscribed_eq)
  from metadata_failure_stays_local [OF a b loads_token(2) d accepts(2)] fails
  have "pc (step world subscribed (Recv (token_message ''http://meta/500''))) = AtRecv \<and>
   sleeps (step world subscribed (Recv (token_message ''http://meta/500''))) = sleeps subscribed \<and>
   fst (fetch_metadata_and_image world (JStr ''http://meta/500'')
          (print (MetadataUriFound (JStr ''http://meta/500'')) subscribed)) = None \<and>
   (\<exists>e. step world subscribed (Recv (token_message ''http://meta/500'')) =
      subscribed\<lparr>stdout := stdout subscribed @
          [MetadataUriFound (JStr ''http://meta/500''),
           if e = RequestException then FailedToFetchMetadata e
           else ErrorProcessingMetadataOrImage e],
        requests := requests subscribed @ [JStr ''http://meta/500'']\<rparr>)"
    by blast
  then show ?thesis by (simp add: facts del: step.simps)
qed

section \<open>The image field of the metadata\<close>

text \<open>
  Claim C9. Where the metadata is a mapping whose \<^verbatim>\<open>image\<close> is not a string,
  \<^verbatim>\<open>startswith\<close> raises \<^verbatim>\<open>AttributeError\<close>, the second handler prints it, and the
  function returns \<^verbatim>\<open>None\<close> having made the metadata request only.
\<close>

theorem image_not_a_string_gives_none:
  assumes "http_get E (length (requests s)) metadata_uri = Some response"
    and "\<not> http_error response"
    and "json_body response = Inr (JObj kvs)"
    and "map_of kvs ''image'' = Some v"
    and "\<forall>u. v \<noteq> JStr u"
  shows "fetch_metadata_and_image E metadata_uri s =
           (None,
            s\<lparr>stdout := stdout s @
                 [Metadata (JObj kvs), ErrorProcessingMetadataOrImage AttributeError],
              requests := requests s @ [metadata_uri]\<rparr>)"
proof -
  from assms(4) have "''image'' \<in> set (map fst kvs)"
    by (metis map_of_eq_None_iff option.distinct(1) set_map)
  moreover from assms(5) have "py_startswith v ''ipfs://'' = Inl AttributeError"
    by (cases v) simp_all
  ultimately show ?thesis using assms(1-4)
    by (simp add: fetch_defs)
qed

theorem image_not_a_string_gives_none_witness:
  "fetch_metadata_and_image world (JStr ''http://meta/numimage'') subscribed =
     (None,
      subscribed\<lparr>stdout := stdout subscribed @
           [Metadata (JObj [(''image'', JNum 7)]),
            ErrorProcessingMetadataOrImage AttributeError],
         requests := [JStr ''http://meta/numimage'']\<rparr>)"
proof -
  have a: "http_get world (length (requests subscribed)) (JStr ''http://meta/numimage'') =
             Some (ok_json (JObj [(''image'', JNum 7)]))"
    by (simp add: world_def)
  have b: "\<not> http_error (ok_json (JObj [(''image'', JNum 7)]))"
    and c: "json_body (ok_json (JObj [(''image'', JNum 7)])) = Inr (JObj [(''image'', JNum 7)])"
    by (simp_all add: ok_json_def http_error_def)
  have d: "map_of [(''image'', JNum 7)] ''image'' = Some (JNum 7)" by simp
  have e: "\<forall>u. JNum 7 \<noteq> JStr u" by simp
  from image_not_a_string_gives_none [OF a b c d e] show ?thesis
    by (simp add: subscribed_eq)
qed



section \<open>Shutdown\<close>

text \<open>
  Claim C8. Once the flag is set, the next thing the subscriber was waiting for ends
  \<^verbatim>\<open>subscribe\<close>. Set during the backoff sleep: when the sleep ends the subscriber
  returns without another connection attempt, the queue untouched. Set while waiting
  for a message: the message that arrives is processed (the queue is what processing it
  gives, so it keeps everything it held), then the subscriber returns with no sleep and
  no new connection; likewise when \<^verbatim>\<open>recv\<close> raises instead. Set during a connection
  attempt: whether the attempt succeeds or raises, the subscriber returns.
\<close>

theorem shutdown_observed_at_next_test:
  "(pc s = AtSleep \<longrightarrow>
      pc (run E s [Shutdown, Woken]) = Returned \<and>
      connects (run E s [Shutdown, Woken]) = connects s \<and>
      image_queue (run E s [Shutdown, Woken]) = image_queue s) \<and>
   (pc s = AtRecv \<longrightarrow>
      pc (run E s [Shutdown, Recv message]) = Returned \<and>
      connects (run E s [Shutdown, Recv message]) = connects s \<and>
      sleeps (run E s [Shutdown, Recv message]) = sleeps s \<and>
      image_queue (run E s [Shutdown, Recv message]) =
        image_queue (snd (on_message E message (step E s Shutdown))) \<and>
      prefix (items (image_queue s)) (items (image_queue (run E s [Shutdown, Recv message])))) \<and>
   (pc s = AtRecv \<longrightarrow>
      pc (run E s [Shutdown, RecvRaises e]) = Returned \<and>
      connects (run E s [Shutdown, RecvRaises e]) = connects s \<and>
      sleeps (run E s [Shutdown, RecvRaises e]) = sleeps s \<and>
      image_queue (run E s [Shutdown, RecvRaises e]) = image_queue s) \<and>
   (pc s = AtConnect \<longrightarrow>
      pc (run E s [Shutdown, Connected]) = Returned \<and>
      connects (run E s [Shutdown, Connected]) = connects s \<and>
      sleeps (run E s [Shutdown, Connected]) = sleeps s \<and>
      pc (run E s [Shutdown, ConnectRaises e]) = Returned \<and>
      connects (run E s [Shutdown, ConnectRaises e]) = connects s \<and>
      sleeps (run E s [Shutdown, ConnectRaises e]) = sleeps s)"
proof (intro conjI impI)
  let ?s = "step E s Shutdown"
  assume at: "pc s = AtRecv"
  obtain x s2 where om: "on_message E message ?s = (x, s2)"
    by (cases "on_message E message ?s")
  from on_message_frame [of E message ?s] om
  have frame: "pc s2 = AtRecv" "shutdown_requested s2" "sleeps s2 = sleeps s"
    "connects s2 = connects s"
    using at by simp_all
  have st: "run E s [Shutdown, Recv message] =
      (case x of None \<Rightarrow> inner_loop s2 | Some e \<Rightarrow> after_try (handle e s2))"
    using at om by (simp add: run_def)
  from st frame show "pc (run E s [Shutdown, Recv message]) = Returned"
    by (cases x) (simp_all add: loop_defs)
  from st frame show "connects (run E s [Shutdown, Recv message]) = connects s"
    by (cases x) (simp_all add: loop_defs)
  from st frame show "sleeps (run E s [Shutdown, Recv message]) = sleeps s"
    by (cases x) (simp_all add: loop_defs)
  from st frame om
  show q: "image_queue (run E s [Shutdown, Recv message]) =
      image_queue (snd (on_message E message ?s))"
    by (cases x) (simp_all add: loop_defs)
  from on_message_queue [of E message ?s]
  have "prefix (items (image_queue ?s)) (items (image_queue (snd (on_message E message ?s))))"
    by (auto simp: put_def)
  with q show "prefix (items (image_queue s)) (items (image_queue (run E s [Shutdown, Recv message])))"
    by simp
qed (simp_all add: run_def loop_defs)

theorem shutdown_observed_at_next_test_witness:
  "pc sleeping = AtSleep \<and> pc (run world sleeping [Shutdown, Woken]) = Returned \<and>
   connects (run world sleeping [Shutdown, Woken]) = 1 \<and>
   pc subscribed = AtRecv \<and>
   pc (run world subscribed [Shutdown, Recv (token_message ''http://meta/ok'')]) = Returned \<and>
   connects (run world subscribed [Shutdown, Recv (token_message ''http://meta/ok'')]) = 1 \<and>
   sleeps (run world subscribed [Shutdown, Recv (token_message ''http://meta/ok'')]) = []"
proof -
  have a: "pc sleeping = AtSleep" and a': "connects sleeping = 1"
    by (simp_all add: sleeping_def run_def start_def loop_defs)
  have b: "pc subscribed = AtRecv" and b': "connects subscribed = 1" "sleeps subscribed = []"
    by (simp_all add: subscribed_eq)
  from shutdown_observed_at_next_test [of sleeping world]
  have "pc sleeping = AtSleep \<longrightarrow>
      pc (run world sleeping [Shutdown, Woken]) = Returned \<and>
      connects (run world sleeping [Shutdown, Woken]) = connects sleeping"
    by blast
  moreover
  from shutdown_observed_at_next_test [of subscribed world "token_message ''http://meta/ok''"]
  have "pc subscribed = AtRecv \<longrightarrow>
      pc (run world subscribed [Shutdown, Recv (token_message ''http://meta/ok'')]) = Returned \<and>
      connects (run world subscribed [Shutdown, Recv (token_message ''http://meta/ok'')]) =
        connects subscribed \<and>
      sleeps (run world subscribed [Shutdown, Recv (token_message ''http://meta/ok'')]) =
        sleeps subscribed"
    by blast
  ultimately show ?thesis using a a' b b' by simp
qed

end
